theory Spec2Isabelle
  imports Complex_Main "HOL-Library.Word"
begin

section \<open>JavaScript strings\<close>

text \<open>
  A JavaScript string is a sequence of UTF-16 code units.
\<close>

type_synonym jsstring = "16 word list"

definition str :: "string \<Rightarrow> jsstring" where
  \<comment> \<open>An ASCII literal of the source as code units.\<close>
  "str s = map of_char s"

definition isLeadSurrogate :: "16 word \<Rightarrow> bool" where
  "isLeadSurrogate c \<longleftrightarrow> 0xD800 \<le> c \<and> c \<le> 0xDBFF"

definition isTrailSurrogate :: "16 word \<Rightarrow> bool" where
  "isTrailSurrogate c \<longleftrightarrow> 0xDC00 \<le> c \<and> c \<le> 0xDFFF"

text \<open>
  \<^verbatim>\<open>Array.from(s)\<close> on a string runs the string iterator: one element per code point,
  a lead surrogate followed by a trail surrogate forming one element of two code units,
  every other code unit (a lone surrogate included) an element of its own.
\<close>

fun arrayFrom :: "jsstring \<Rightarrow> jsstring list" where
  "arrayFrom [] = []"
| "arrayFrom [c] = [[c]]"
| "arrayFrom (c # d # cs) =
     (if isLeadSurrogate c \<and> isTrailSurrogate d then [c, d] # arrayFrom cs
      else [c] # arrayFrom (d # cs))"

definition isWhiteSpace :: "16 word \<Rightarrow> bool" where
  \<comment> \<open>WhiteSpace and LineTerminator of ECMAScript, the code points \<^verbatim>\<open>trim\<close> removes.\<close>
  "isWhiteSpace c \<longleftrightarrow>
     c = 0x09 \<or> c = 0x0A \<or> c = 0x0B \<or> c = 0x0C \<or> c = 0x0D \<or> c = 0x20 \<or> c = 0xA0 \<or>
     c = 0x1680 \<or> (0x2000 \<le> c \<and> c \<le> 0x200A) \<or> c = 0x2028 \<or> c = 0x2029 \<or>
     c = 0x202F \<or> c = 0x205F \<or> c = 0x3000 \<or> c = 0xFEFF"

definition trim :: "jsstring \<Rightarrow> jsstring" where
  "trim s = rev (dropWhile isWhiteSpace (rev (dropWhile isWhiteSpace s)))"

definition replaceAll :: "16 word \<Rightarrow> jsstring \<Rightarrow> jsstring \<Rightarrow> jsstring" where
  \<comment> \<open>\<^verbatim>\<open>s.replaceAll(c, r)\<close> for a pattern of one code unit and a replacement without \<^verbatim>\<open>$\<close>.\<close>
  "replaceAll c r s = concat (map (\<lambda>x. if x = c then r else [x]) s)"

definition stripTrailingNbsp :: "jsstring \<Rightarrow> jsstring" where
  \<comment> \<open>The \<^verbatim>\<open>replace\<close> of a trailing run of U+00A0 by the empty string: the leftmost match of the anchored pattern is the whole trailing run.\<close>
  "stripTrailingNbsp s = rev (dropWhile (\<lambda>c. c = 0xA0) (rev s))"

section \<open>JavaScript numbers\<close>

text \<open>
  A JavaScript number is an IEEE 754 double. A finite double is modelled as the real it
  denotes, and every subtraction, division and multiplication of the source is followed
  by \<open>round64\<close>, the rounding of the exact result to the nearest double, ties to the even
  significand: 53 significant bits, subnormals below \<open>2 ^ (- 1022)\<close>. The exponent is not
  bounded above: the timestamps are milliseconds since the page was loaded, and no value
  computed from them reaches \<open>2 ^ 1024\<close>. \<^verbatim>\<open>Math.floor\<close>, \<^verbatim>\<open>Math.min\<close> and the comparisons
  are exact.
\<close>

definition roundHalfEven :: "real \<Rightarrow> int" where
  "roundHalfEven x =
     (let f = \<lfloor>x\<rfloor>; r = x - of_int f
      in if r < 1 / 2 then f else if 1 / 2 < r then f + 1 else if even f then f else f + 1)"

function binade :: "real \<Rightarrow> int" where
  "binade x =
     (if 2 \<le> x then binade (x / 2) + 1
      else if 0 < x \<and> x < 1 then binade (x * 2) - 1
      else 0)"
  by pat_completeness auto
termination
proof (relation "measure (\<lambda>x. if 1 \<le> x then nat \<lfloor>x\<rfloor> else nat \<lceil>1 / x\<rceil>)")
  show "wf (measure (\<lambda>x::real. if 1 \<le> x then nat \<lfloor>x\<rfloor> else nat \<lceil>1 / x\<rceil>))"
    by simp
next
  fix x :: real
  assume h: "2 \<le> x"
  have "\<lfloor>x / 2\<rfloor> \<le> \<lfloor>x - 1\<rfloor>"
    using h by (intro floor_mono) simp
  moreover have "1 \<le> \<lfloor>x\<rfloor>"
    using h by (simp add: le_floor_iff)
  ultimately show "(x / 2, x) \<in> measure (\<lambda>x. if 1 \<le> x then nat \<lfloor>x\<rfloor> else nat \<lceil>1 / x\<rceil>)"
    using h by simp
next
  fix x :: real
  assume h: "\<not> 2 \<le> x" "0 < x \<and> x < 1"
  have big: "1 < 1 / x"
    using h by simp
  then have c2: "2 \<le> \<lceil>1 / x\<rceil>"
    by (simp add: less_ceiling_iff)
  show "(x * 2, x) \<in> measure (\<lambda>x. if 1 \<le> x then nat \<lfloor>x\<rfloor> else nat \<lceil>1 / x\<rceil>)"
  proof (cases "1 \<le> x * 2")
    case True
    have "\<lfloor>x * 2\<rfloor> = 1"
      using True h by (simp add: floor_eq_iff)
    then show ?thesis
      using True h c2 by simp
  next
    case False
    then have "2 \<le> 1 / x"
      using h by (simp add: field_simps)
    then have "1 / (x * 2) \<le> 1 / x - 1"
      using h by (simp add: field_simps)
    then have "\<lceil>1 / (x * 2)\<rceil> \<le> \<lceil>1 / x - 1\<rceil>"
      by (rule ceiling_mono)
    then show ?thesis
      using False h c2 by simp
  qed
qed

declare binade.simps [simp del]

definition pow2 :: "int \<Rightarrow> real" where
  "pow2 e = (if 0 \<le> e then 2 ^ nat e else 1 / 2 ^ nat (- e))"

definition round64 :: "real \<Rightarrow> real" where
  "round64 x =
     (if x = 0 then 0
      else
        let q = pow2 (max (binade \<bar>x\<bar>) (- 1022) - 52)
        in sgn x * (of_int (roundHalfEven (\<bar>x\<bar> / q)) * q))"

definition quantum :: "real \<Rightarrow> real" where
  \<comment> \<open>The spacing of the doubles around a real, as \<open>round64\<close> uses it.\<close>
  "quantum x = pow2 (max (binade \<bar>x\<bar>) (- 1022) - 52)"

section \<open>escapeHtml\<close>

definition escapeHtml :: "jsstring \<Rightarrow> jsstring" where
  "escapeHtml s =
     replaceAll 0x27 (str ''&#039;'')
       (replaceAll 0x22 (str ''&quot;'')
         (replaceAll 0x3E (str ''&gt;'')
           (replaceAll 0x3C (str ''&lt;'')
             (replaceAll 0x26 (str ''&amp;'') s))))"

definition escapeChar :: "16 word \<Rightarrow> jsstring" where
  \<comment> \<open>What one code unit of the input becomes; \<open>escapeHtml_single_pass\<close> relates it to the source.\<close>
  "escapeChar c =
     (if c = 0x26 then str ''&amp;''
      else if c = 0x3C then str ''&lt;''
      else if c = 0x3E then str ''&gt;''
      else if c = 0x22 then str ''&quot;''
      else if c = 0x27 then str ''&#039;''
      else [c])"

text \<open>
  The decoder of the five entities, written from the words of the specification: it is
  compared with \<open>escapeHtml\<close>, it is not code of the program.
\<close>

fun unescapeHtml :: "jsstring \<Rightarrow> jsstring" where
  "unescapeHtml [] = []"
| "unescapeHtml (c # cs) =
     (if c = 0x26 \<and> take 4 cs = str ''amp;'' then 0x26 # unescapeHtml (drop 4 cs)
      else if c = 0x26 \<and> take 3 cs = str ''lt;'' then 0x3C # unescapeHtml (drop 3 cs)
      else if c = 0x26 \<and> take 3 cs = str ''gt;'' then 0x3E # unescapeHtml (drop 3 cs)
      else if c = 0x26 \<and> take 5 cs = str ''quot;'' then 0x22 # unescapeHtml (drop 5 cs)
      else if c = 0x26 \<and> take 5 cs = str ''#039;'' then 0x27 # unescapeHtml (drop 5 cs)
      else c # unescapeHtml cs)"

section \<open>The animation session\<close>

definition I18N_TEXT_SWAP_MS :: real where
  "I18N_TEXT_SWAP_MS = 1000"

text \<open>
  The closure of \<^verbatim>\<open>step\<close>: the element, the two texts and the start time captured by
  \<^verbatim>\<open>animateTextScramble\<close>. The other constants of the enclosing scope are functions of
  these.
\<close>

record session =
  el :: nat
  currentText :: jsstring
  nextText :: jsstring
  start :: real

definition fromChars :: "session \<Rightarrow> jsstring list" where
  "fromChars s = arrayFrom (currentText s)"

definition toChars :: "session \<Rightarrow> jsstring list" where
  "toChars s = arrayFrom (nextText s)"

definition targetLen :: "session \<Rightarrow> nat" where
  "targetLen s = length (toChars s)"

definition fromPadded :: "session \<Rightarrow> jsstring list" where
  \<comment> \<open>\<^verbatim>\<open>fromChars.slice(0, targetLen).concat(Array(Math.max(0, targetLen - fromChars.length)).fill(""))\<close>\<close>
  "fromPadded s =
     take (targetLen s) (fromChars s) @ replicate (targetLen s - length (fromChars s)) []"

definition toPadded :: "session \<Rightarrow> jsstring list" where
  "toPadded s = toChars s"

definition progress :: "session \<Rightarrow> real \<Rightarrow> real" where
  \<comment> \<open>\<^verbatim>\<open>Math.min((now - start) / I18N_TEXT_SWAP_MS, 1)\<close>, the difference and the quotient rounded.\<close>
  "progress s now = min (round64 (round64 (now - start s) / I18N_TEXT_SWAP_MS)) 1"

definition revealCount :: "session \<Rightarrow> real \<Rightarrow> int" where
  \<comment> \<open>\<^verbatim>\<open>Math.floor(progress * targetLen)\<close>, the product rounded.\<close>
  "revealCount s now = floor (round64 (progress s now * of_nat (targetLen s)))"

definition highlightIndex :: "session \<Rightarrow> real \<Rightarrow> int" where
  "highlightIndex s now =
     (if revealCount s now < int (targetLen s) then revealCount s now else - 1)"

definition spanOpen :: jsstring where
  \<open>spanOpen = str ''<span class="i18n-char-highlight">''\<close>

definition spanClose :: jsstring where
  "spanClose = str ''</span>''"

definition outCell :: "session \<Rightarrow> real \<Rightarrow> nat \<Rightarrow> jsstring" where
  \<comment> \<open>What one pass of the loop body pushes, for \<open>i < targetLen s\<close>.\<close>
  "outCell s now i =
     (if int i < revealCount s now then escapeHtml (toPadded s ! i)
      else
        let sourceChar = fromPadded s ! i;
            charToShow = (if sourceChar = [0x20] then [0xA0] else sourceChar)
        in if int i = highlightIndex s now \<and> trim sourceChar \<noteq> []
           then spanOpen @ escapeHtml charToShow @ spanClose
           else escapeHtml charToShow)"

definition out :: "session \<Rightarrow> real \<Rightarrow> jsstring list" where
  "out s now = map (outCell s now) [0..<targetLen s]"

text \<open>The write to the element that ends a tick.\<close>

datatype domWrite = SetTextContent jsstring | SetInnerHTML jsstring

definition stepWrite :: "session \<Rightarrow> real \<Rightarrow> domWrite" where
  "stepWrite s now =
     (if progress s now \<ge> 1 then SetTextContent (nextText s)
      else SetInnerHTML (stripTrailingNbsp (concat (out s now))))"

section \<open>The element, the frame callbacks and the handle table\<close>

text \<open>
  What the animator observes of an element is the list of its child nodes: the getter of
  \<^verbatim>\<open>textContent\<close> concatenates the text below it, \<^verbatim>\<open>childElementCount\<close> counts the
  children that are elements, the setter of \<^verbatim>\<open>textContent\<close> leaves one text node (none for
  the empty string). The setter of \<^verbatim>\<open>innerHTML\<close> runs the browser's parser, which is a
  parameter \<open>parseHtml\<close> of the model.
\<close>

datatype node = TextNode jsstring | ElementNode string "node list"

fun nodeText :: "node \<Rightarrow> jsstring" where
  "nodeText (TextNode t) = t"
| "nodeText (ElementNode tag cs) = concat (map nodeText cs)"

fun isElement :: "node \<Rightarrow> bool" where
  "isElement (TextNode t) = False"
| "isElement (ElementNode tag cs) = True"

definition textContent :: "node list \<Rightarrow> jsstring" where
  "textContent cs = concat (map nodeText cs)"

definition childElementCount :: "node list \<Rightarrow> nat" where
  "childElementCount cs = length (filter isElement cs)"

definition setTextContent :: "jsstring \<Rightarrow> node list" where
  "setTextContent t = (if t = [] then [] else [TextNode t])"

text \<open>
  The state: the children of every element (keyed by the element's identity), the
  browser's list of pending animation frame callbacks with their handles, the table
  \<^verbatim>\<open>textAnimationRafs\<close>, and the browser's handle counter (handles start at 1 and are
  never reused).
\<close>

record world =
  dom :: "nat \<Rightarrow> node list"
  frameCallbacks :: "(nat \<times> session) list"
  textAnimationRafs :: "nat \<rightharpoonup> nat"
  rafCounter :: nat

definition requestAnimationFrame :: "session \<Rightarrow> world \<Rightarrow> nat \<times> world" where
  "requestAnimationFrame cb w =
     (let h = Suc (rafCounter w)
      in (h, w\<lparr>frameCallbacks := frameCallbacks w @ [(h, cb)], rafCounter := h\<rparr>))"

definition cancelAnimationFrame :: "nat \<Rightarrow> world \<Rightarrow> world" where
  "cancelAnimationFrame h w =
     w\<lparr>frameCallbacks := filter (\<lambda>(i, cb). i \<noteq> h) (frameCallbacks w)\<rparr>"

definition animateTextScramble :: "real \<Rightarrow> nat option \<Rightarrow> jsstring \<Rightarrow> world \<Rightarrow> world" where
  \<comment> \<open>The first argument is what \<^verbatim>\<open>performance.now()\<close> returns during the call.\<close>
  "animateTextScramble perfNow elem next w =
     (case elem of
        None \<Rightarrow> w
      | Some e \<Rightarrow>
          let w1 = (case textAnimationRafs w e of
                      None \<Rightarrow> w
                    | Some previousRaf \<Rightarrow>
                        if previousRaf \<noteq> 0 then cancelAnimationFrame previousRaf w else w);
              current = textContent (dom w1 e)
          in if current = next then w1
             else if childElementCount (dom w1 e) > 0
               then w1\<lparr>dom := (dom w1)(e := setTextContent next)\<rparr>
             else
               let cb = \<lparr>el = e, currentText = current, nextText = next, start = perfNow\<rparr>;
                   (rafId, w2) = requestAnimationFrame cb w1
               in w2\<lparr>textAnimationRafs := (textAnimationRafs w2)(e \<mapsto> rafId)\<rparr>)"

definition step :: "(jsstring \<Rightarrow> node list) \<Rightarrow> session \<Rightarrow> real \<Rightarrow> world \<Rightarrow> world" where
  "step parseHtml s now w =
     (let w1 = w\<lparr>dom := (dom w)(el s :=
                  (case stepWrite s now of
                     SetTextContent t \<Rightarrow> setTextContent t
                   | SetInnerHTML m \<Rightarrow> parseHtml m))\<rparr>
      in if progress s now < 1
         then
           let (rafId, w2) = requestAnimationFrame s w1
           in w2\<lparr>textAnimationRafs := (textAnimationRafs w2)(el s \<mapsto> rafId)\<rparr>
         else w1\<lparr>textAnimationRafs := (textAnimationRafs w1)(el s := None)\<rparr>)"

text \<open>
  The browser runs a pending callback: it leaves the list and is called with the frame's
  timestamp. A handle that is not pending runs nothing.
\<close>

definition runFrameCallback ::
  "(jsstring \<Rightarrow> node list) \<Rightarrow> nat \<Rightarrow> real \<Rightarrow> world \<Rightarrow> world" where
  "runFrameCallback parseHtml h now w =
     (case map_of (frameCallbacks w) h of
        None \<Rightarrow> w
      | Some cb \<Rightarrow>
          step parseHtml cb now
            (w\<lparr>frameCallbacks := filter (\<lambda>(i, c). i \<noteq> h) (frameCallbacks w)\<rparr>))"

text \<open>
  \<^verbatim>\<open>setLanguage\<close> and the body of the \<^verbatim>\<open>forEach\<close> of \<^verbatim>\<open>applyTranslationsToDom\<close> for one
  element whose translation is a string.
\<close>

definition shouldAnimate :: "bool \<Rightarrow> bool \<Rightarrow> bool" where
  "shouldAnimate animate prefersReducedMotion \<longleftrightarrow> animate \<and> \<not> prefersReducedMotion"

definition applyTranslation :: "bool \<Rightarrow> real \<Rightarrow> nat \<Rightarrow> jsstring \<Rightarrow> world \<Rightarrow> world" where
  "applyTranslation animateText perfNow e v w =
     (if animateText then animateTextScramble perfNow (Some e) v w
      else w\<lparr>dom := (dom w)(e := setTextContent v)\<rparr>)"

text \<open>What can happen to the state, and a run of such events.\<close>

datatype event =
    Translate bool real nat jsstring
  | Animate real "nat option" jsstring
  | Frame nat real

fun applyEvent :: "(jsstring \<Rightarrow> node list) \<Rightarrow> event \<Rightarrow> world \<Rightarrow> world" where
  "applyEvent parseHtml (Translate a t e v) w = applyTranslation a t e v w"
| "applyEvent parseHtml (Animate t elem v) w = animateTextScramble t elem v w"
| "applyEvent parseHtml (Frame h now) w = runFrameCallback parseHtml h now w"

definition run :: "(jsstring \<Rightarrow> node list) \<Rightarrow> event list \<Rightarrow> world \<Rightarrow> world" where
  "run parseHtml evs w = fold (applyEvent parseHtml) evs w"

definition sessionsOf :: "world \<Rightarrow> nat \<Rightarrow> (nat \<times> session) list" where
  \<comment> \<open>The pending callbacks that write to the element.\<close>
  "sessionsOf w e = filter (\<lambda>(h, cb). el cb = e) (frameCallbacks w)"

section \<open>Example inputs\<close>

definition home :: jsstring where
  "home = str ''Home''"

definition proNas :: jsstring where
  \<comment> \<open>The seven code units of the Ukrainian for "About us".\<close>
  "proNas = [0x41F, 0x440, 0x43E, 0x20, 0x43D, 0x430, 0x441]"

definition page :: "jsstring \<Rightarrow> world" where
  \<comment> \<open>A freshly loaded page: every element shows the text, nothing is pending.\<close>
  "page t = \<lparr>dom = (\<lambda>e. setTextContent t), frameCallbacks = [],
              textAnimationRafs = Map.empty, rafCounter = 0\<rparr>"

definition nestedPage :: world where
  \<comment> \<open>Every element holds one child element \<^verbatim>\<open><b>Hi</b>\<close>, nothing is pending.\<close>
  "nestedPage = \<lparr>dom = (\<lambda>e. [ElementNode ''b'' [TextNode (str ''Hi'')]]),
                 frameCallbacks = [], textAnimationRafs = Map.empty, rafCounter = 0\<rparr>"

definition homeToProNas :: session where
  "homeToProNas = \<lparr>el = 0, currentText = home, nextText = proNas, start = 0\<rparr>"

definition proNasToHome :: session where
  "proNasToHome = \<lparr>el = 0, currentText = proNas, nextText = home, start = 0\<rparr>"

definition portfolioToMoje :: session where
  \<comment> \<open>From "My portfolio" to a word of three Cyrillic letters.\<close>
  "portfolioToMoje =
     \<lparr>el = 0, currentText = str ''My portfolio'', nextText = [0x41C, 0x43E, 0x454], start = 0\<rparr>"

definition toCombining :: session where
  \<comment> \<open>From the empty text to the letter e followed by U+0301, the combining acute accent.\<close>
  "toCombining = \<lparr>el = 0, currentText = [], nextText = [0x65, 0x301], start = 0\<rparr>"



definition markupToEscape :: session where
  "markupToEscape = \<lparr>el = 0, currentText = str ''a<b'', nextText = str ''x&y'', start = 0\<rparr>"

section \<open>Vocabulary of the properties\<close>

definition entities :: "jsstring list" where
  \<comment> \<open>The five entities \<open>escapeHtml\<close> writes.\<close>
  "entities = [str ''&amp;'', str ''&lt;'', str ''&gt;'', str ''&quot;'', str ''&#039;'']"

definition sessionPending :: "world \<Rightarrow> nat \<Rightarrow> bool" where
  \<comment> \<open>The handle that the table holds for the element is a pending callback.\<close>
  "sessionPending w e =
     (case textAnimationRafs w e of
        None \<Rightarrow> False
      | Some h \<Rightarrow> h \<in> fst ` set (frameCallbacks w))"

definition handlesTracked :: "world \<Rightarrow> bool" where
  \<comment> \<open>The invariant of the handle table: pending handles are distinct, were handed out,
      and each is the one the table holds for the element its callback writes to.\<close>
  "handlesTracked w \<longleftrightarrow>
     distinct (map fst (frameCallbacks w))
     \<and> (\<forall>(h, cb)\<in>set (frameCallbacks w).
           0 < h \<and> h \<le> rafCounter w \<and> textAnimationRafs w (el cb) = Some h)"

definition cancelPrevious :: "nat \<Rightarrow> world \<Rightarrow> world" where
  \<comment> \<open>The first two statements of \<open>animateTextScramble\<close> after the null check, on their
      own: \<open>animateTextScramble_unfold\<close> relates them to the source.\<close>
  "cancelPrevious e w =
     (case textAnimationRafs w e of
        None \<Rightarrow> w
      | Some previousRaf \<Rightarrow>
          if previousRaf \<noteq> 0 then cancelAnimationFrame previousRaf w else w)"

section \<open>Properties of escapeHtml\<close>

lemma replaceAll_Nil: "replaceAll c r [] = []"
  by (simp add: replaceAll_def)

lemma replaceAll_append: "replaceAll c r (a @ b) = replaceAll c r a @ replaceAll c r b"
  by (simp add: replaceAll_def)

lemma replaceAll_Cons:
  "replaceAll c r (x # xs) = (if x = c then r else [x]) @ replaceAll c r xs"
  by (simp add: replaceAll_def)

lemma escapeHtml_append: "escapeHtml (a @ b) = escapeHtml a @ escapeHtml b"
  by (simp add: escapeHtml_def replaceAll_append)

lemma escapeHtml_Nil: "escapeHtml [] = []"
  by (simp add: escapeHtml_def replaceAll_Nil)

lemma escapeHtml_unit: "escapeHtml [c] = escapeChar c"
  by (simp add: escapeHtml_def escapeChar_def replaceAll_Cons replaceAll_Nil str_def)

lemma escapeHtml_Cons: "escapeHtml (c # cs) = escapeChar c @ escapeHtml cs"
  using escapeHtml_append [of "[c]" cs] by (simp add: escapeHtml_unit)

lemma escapeHtml_single_pass: "escapeHtml s = concat (map escapeChar s)"
  by (induction s) (simp_all add: escapeHtml_Nil escapeHtml_Cons)

lemma unescapeHtml_escapeChar: "unescapeHtml (escapeChar c @ r) = c # unescapeHtml r"
  by (simp add: escapeChar_def str_def)

lemma unescapeHtml_escapeHtml: "unescapeHtml (escapeHtml s) = s"
  by (induction s)
    (simp_all add: escapeHtml_Nil escapeHtml_Cons unescapeHtml_escapeChar
      del: unescapeHtml.simps(2))

lemma escapeHtml_inj: "escapeHtml s = escapeHtml t \<longleftrightarrow> s = t"
  by (metis unescapeHtml_escapeHtml)

text \<open>
  C10. \<open>escapeHtml\<close> loses nothing: decoding the five entities in its output gives the
  input back, so two different inputs never have the same output; and the five
  replacements in the order of the source amount to one pass that maps every code unit
  of the input to its entity or to itself, so no entity written by an earlier replacement
  is touched by a later one.
\<close>

theorem escapeHtml_lossless:
  "unescapeHtml (escapeHtml s) = s
   \<and> (escapeHtml s = escapeHtml t \<longleftrightarrow> s = t)
   \<and> escapeHtml s = concat (map escapeChar s)"
  by (simp add: unescapeHtml_escapeHtml escapeHtml_inj escapeHtml_single_pass [symmetric])

section \<open>Properties of the rounding\<close>

lemma pow2_powr: "pow2 e = 2 powr real_of_int e"
  by (simp add: pow2_def powr_int)

lemma pow2_pos: "0 < pow2 e"
  by (simp add: pow2_powr)

lemma pow2_mono: "a \<le> b \<Longrightarrow> pow2 a \<le> pow2 b"
  by (simp add: pow2_powr)

lemma pow2_add: "pow2 (a + b) = pow2 a * pow2 b"
  by (simp add: pow2_powr powr_add)

lemma pow2_Suc: "pow2 (e + 1) = 2 * pow2 e"
  by (simp add: pow2_add) (simp add: pow2_def)

lemma pow2_pred: "pow2 (e - 1) = pow2 e / 2"
  using pow2_Suc [of "e - 1"] by simp

lemma pow2_53: "pow2 53 = 2 ^ 53" and pow2_52: "pow2 52 = 2 ^ 52"
  by (simp_all add: pow2_def)

lemma binade_bounds: "0 < x \<Longrightarrow> pow2 (binade x) \<le> x \<and> x < pow2 (binade x + 1)"
proof (induction x rule: binade.induct)
  case (1 x)
  show ?case
  proof (cases "2 \<le> x")
    case True
    then have b: "binade x = binade (x / 2) + 1"
      by (subst binade.simps) simp
    from "1.IH"(1) [OF True] "1.prems"
    have "pow2 (binade (x / 2)) \<le> x / 2 \<and> x / 2 < pow2 (binade (x / 2) + 1)"
      by simp
    moreover have "pow2 (binade x) = 2 * pow2 (binade (x / 2))"
      unfolding b by (rule pow2_Suc)
    moreover have "pow2 (binade x + 1) = 2 * pow2 (binade (x / 2) + 1)"
      unfolding b by (rule pow2_Suc)
    ultimately show ?thesis
      by simp
  next
    case False
    show ?thesis
    proof (cases "x < 1")
      case True
      with "1.prems" have c: "0 < x \<and> x < 1" by simp
      then have b: "binade x = binade (x * 2) - 1"
        using False by (subst binade.simps) simp
      from "1.IH"(2) [OF False c] "1.prems"
      have "pow2 (binade (x * 2)) \<le> x * 2 \<and> x * 2 < pow2 (binade (x * 2) + 1)"
        by simp
      moreover have "pow2 (binade x) = pow2 (binade (x * 2)) / 2"
        unfolding b by (rule pow2_pred)
      moreover have "pow2 (binade x + 1) = pow2 (binade (x * 2) + 1) / 2"
        using pow2_pred [of "binade (x * 2) + 1"] by (simp add: b)
      ultimately show ?thesis
        by simp
    next
      case ge: False
      with False have b: "binade x = 0"
        by (subst binade.simps) simp
      show ?thesis
        using False ge by (simp add: b pow2_def)
    qed
  qed
qed

lemma binade_mono:
  assumes "0 < x" "x \<le> y"
  shows "binade x \<le> binade y"
proof (rule ccontr)
  assume "\<not> binade x \<le> binade y"
  then have "binade y + 1 \<le> binade x" by simp
  then have "pow2 (binade y + 1) \<le> pow2 (binade x)" by (rule pow2_mono)
  moreover have "pow2 (binade x) \<le> x" "y < pow2 (binade y + 1)"
    using assms binade_bounds [of x] binade_bounds [of y] by simp_all
  ultimately show False using assms by simp
qed

lemma roundHalfEven_bounds: "\<lfloor>x\<rfloor> \<le> roundHalfEven x \<and> roundHalfEven x \<le> \<lfloor>x\<rfloor> + 1"
  by (simp add: roundHalfEven_def Let_def)

lemma roundHalfEven_of_int: "roundHalfEven (of_int n) = n"
  by (simp add: roundHalfEven_def Let_def)

lemma roundHalfEven_mono:
  assumes "x \<le> y"
  shows "roundHalfEven x \<le> roundHalfEven y"
proof (cases "\<lfloor>x\<rfloor> = \<lfloor>y\<rfloor>")
  case True
  with assms have "x - of_int \<lfloor>x\<rfloor> \<le> y - of_int \<lfloor>y\<rfloor>" by simp
  then show ?thesis
    using True by (simp add: roundHalfEven_def Let_def)
next
  case False
  with assms have "\<lfloor>x\<rfloor> + 1 \<le> \<lfloor>y\<rfloor>"
    using floor_mono [of x y] by simp
  with roundHalfEven_bounds [of x] roundHalfEven_bounds [of y] show ?thesis
    by linarith
qed

lemma round64_pos: "0 < x \<Longrightarrow> round64 x = of_int (roundHalfEven (x / quantum x)) * quantum x"
  by (simp add: round64_def quantum_def Let_def)

lemma round64_neg: "x < 0 \<Longrightarrow> round64 x = - round64 (- x)"
  by (simp add: round64_def Let_def)

lemma round64_zero: "round64 0 = 0"
  by (simp add: round64_def)

lemma quantum_pos: "0 < quantum x"
  by (simp add: quantum_def pow2_pos)

lemma round64_nonneg: "0 \<le> x \<Longrightarrow> 0 \<le> round64 x"
proof (cases "x = 0")
  case True
  then show ?thesis by (simp add: round64_zero)
next
  case False
  assume "0 \<le> x"
  with False have x: "0 < x" by simp
  have "0 \<le> x / quantum x"
    using x quantum_pos [of x] by simp
  then have "roundHalfEven 0 \<le> roundHalfEven (x / quantum x)"
    by (rule roundHalfEven_mono)
  then have "0 \<le> roundHalfEven (x / quantum x)"
    using roundHalfEven_of_int [of 0] by simp
  then show ?thesis
    using quantum_pos [of x] by (simp add: round64_pos [OF x])
qed

lemma round64_upper:
  assumes x: "0 < x"
  shows "round64 x \<le> pow2 (max (binade x) (- 1022) + 1)"
proof -
  let ?e = "max (binade x) (- 1022)"
  have q: "quantum x = pow2 (?e - 52)"
    using x by (simp add: quantum_def)
  have "pow2 (?e + 1) = pow2 (53 + (?e - 52))"
    by (rule arg_cong [where f = pow2]) simp
  also have "\<dots> = pow2 53 * pow2 (?e - 52)"
    by (rule pow2_add)
  finally have split: "pow2 (?e + 1) = of_int (2 ^ 53) * quantum x"
    by (simp add: q pow2_53)
  have "x < pow2 (binade x + 1)"
    using binade_bounds [OF x] by simp
  also have "\<dots> \<le> pow2 (?e + 1)"
    by (rule pow2_mono) simp
  finally have "x \<le> of_int (2 ^ 53) * quantum x"
    unfolding split by simp
  then have "x / quantum x \<le> of_int (2 ^ 53)"
    using quantum_pos [of x] by (simp only: pos_divide_le_eq)
  then have "roundHalfEven (x / quantum x) \<le> roundHalfEven (of_int (2 ^ 53))"
    by (rule roundHalfEven_mono)
  then have "roundHalfEven (x / quantum x) \<le> 2 ^ 53"
    by (simp only: roundHalfEven_of_int)
  then have "of_int (roundHalfEven (x / quantum x)) * quantum x \<le> of_int (2 ^ 53) * quantum x"
    using quantum_pos [of x] by (intro mult_right_mono) simp_all
  then show ?thesis
    by (simp only: round64_pos [OF x] split)
qed

lemma round64_lower:
  assumes x: "0 < x" and normal: "- 1022 \<le> binade x"
  shows "pow2 (binade x) \<le> round64 x"
proof -
  have q: "quantum x = pow2 (binade x - 52)"
    using x normal by (simp add: quantum_def max_def)
  have "pow2 (binade x) = pow2 (52 + (binade x - 52))"
    by (rule arg_cong [where f = pow2]) simp
  also have "\<dots> = pow2 52 * pow2 (binade x - 52)"
    by (rule pow2_add)
  finally have split: "pow2 (binade x) = of_int (2 ^ 52) * quantum x"
    by (simp add: q pow2_52)
  have "pow2 (binade x) \<le> x"
    using binade_bounds [OF x] by simp
  then have "of_int (2 ^ 52) * quantum x \<le> x"
    unfolding split .
  then have "of_int (2 ^ 52) \<le> x / quantum x"
    using quantum_pos [of x] by (simp only: pos_le_divide_eq)
  then have "roundHalfEven (of_int (2 ^ 52)) \<le> roundHalfEven (x / quantum x)"
    by (rule roundHalfEven_mono)
  then have "2 ^ 52 \<le> roundHalfEven (x / quantum x)"
    by (simp only: roundHalfEven_of_int)
  then have "of_int (2 ^ 52) * quantum x \<le> of_int (roundHalfEven (x / quantum x)) * quantum x"
    using quantum_pos [of x] by (intro mult_right_mono) simp_all
  then show ?thesis
    by (simp only: round64_pos [OF x] split)
qed

lemma round64_mono_pos:
  assumes x: "0 < x" and xy: "x \<le> y"
  shows "round64 x \<le> round64 y"
proof -
  have y: "0 < y" using x xy by simp
  let ?ex = "max (binade x) (- 1022)" and ?ey = "max (binade y) (- 1022)"
  have le: "?ex \<le> ?ey"
    using binade_mono [OF x xy] by simp
  show ?thesis
  proof (cases "?ex = ?ey")
    case True
    then have q: "quantum x = quantum y"
      using x y by (simp add: quantum_def)
    have "x / quantum y \<le> y / quantum y"
      using xy quantum_pos [of y] by (simp add: divide_right_mono)
    then have "roundHalfEven (x / quantum y) \<le> roundHalfEven (y / quantum y)"
      by (rule roundHalfEven_mono)
    then have "of_int (roundHalfEven (x / quantum y)) * quantum y
               \<le> of_int (roundHalfEven (y / quantum y)) * quantum y"
      using quantum_pos [of y] by (intro mult_right_mono) simp_all
    then show ?thesis
      by (simp add: round64_pos [OF x] round64_pos [OF y] q)
  next
    case False
    with le have lt: "?ex + 1 \<le> ?ey" by simp
    then have normal: "- 1022 \<le> binade y" and ey: "?ey = binade y"
      by (simp_all add: max_def split: if_splits)
    have "round64 x \<le> pow2 (?ex + 1)"
      by (rule round64_upper [OF x])
    also have "\<dots> \<le> pow2 (binade y)"
      using lt ey by (intro pow2_mono) simp
    also have "\<dots> \<le> round64 y"
      by (rule round64_lower [OF y normal])
    finally show ?thesis .
  qed
qed

lemma round64_mono:
  assumes "x \<le> y"
  shows "round64 x \<le> round64 y"
proof -
  consider "0 < x" | "x \<le> 0" "0 \<le> y" | "y < 0"
    using assms by linarith
  then show ?thesis
  proof cases
    case 1
    then show ?thesis using assms by (rule round64_mono_pos)
  next
    case 2
    have "round64 x \<le> 0"
    proof (cases "x = 0")
      case True
      then show ?thesis by (simp add: round64_zero)
    next
      case False
      with 2 have "x < 0" by simp
      then show ?thesis
        using round64_nonneg [of "- x"] by (simp add: round64_neg)
    qed
    with round64_nonneg [OF 2(2)] show ?thesis by simp
  next
    case 3
    with assms have "x < 0" "0 < - y" "- y \<le> - x" by simp_all
    then show ?thesis
      using round64_mono_pos [of "- y" "- x"] 3 by (simp add: round64_neg)
  qed
qed

section \<open>The tick\<close>

lemmas number_eval =
  round64_def pow2_def roundHalfEven_def binade.simps Let_def

lemmas session_eval =
  revealCount_def progress_def targetLen_def toChars_def toPadded_def fromPadded_def
  fromChars_def I18N_TEXT_SWAP_MS_def isLeadSurrogate_def isTrailSurrogate_def number_eval

lemma progress_rounded_difference:
  \<comment> \<open>The doubles nearest to 0.3 and 1000.3 differ by exactly 1000 after rounding.\<close>
  "progress \<lparr>el = 0, currentText = [], nextText = [], start = round64 (3 / 10)\<rparr>
     (round64 (10003 / 10)) = 1"
  by (simp add: progress_def I18N_TEXT_SWAP_MS_def number_eval)

lemma cancelAnimationFrame_simps:
  "dom (cancelAnimationFrame h w) = dom w"
  "rafCounter (cancelAnimationFrame h w) = rafCounter w"
  "textAnimationRafs (cancelAnimationFrame h w) = textAnimationRafs w"
  "frameCallbacks (cancelAnimationFrame h w) = filter (\<lambda>(i, cb). i \<noteq> h) (frameCallbacks w)"
  by (simp_all add: cancelAnimationFrame_def)


lemma nth_out: "i < targetLen s \<Longrightarrow> out s now ! i = outCell s now i"
  by (simp add: out_def)

lemma length_fromPadded: "length (fromPadded s) = targetLen s"
  by (simp add: fromPadded_def)

lemma nth_fromPadded:
  "i < targetLen s \<Longrightarrow>
   fromPadded s ! i = (if i < length (fromChars s) then fromChars s ! i else [])"
  by (simp add: fromPadded_def nth_append)

lemma progress_mono: "now1 \<le> now2 \<Longrightarrow> progress s now1 \<le> progress s now2"
  unfolding progress_def I18N_TEXT_SWAP_MS_def
  by (intro min.mono round64_mono divide_right_mono) simp_all

lemma revealCount_mono: "now1 \<le> now2 \<Longrightarrow> revealCount s now1 \<le> revealCount s now2"
  unfolding revealCount_def
  by (intro floor_mono round64_mono mult_right_mono progress_mono) simp_all

text \<open>
  C9. Along the ticks of one session, if the timestamps handed to the ticks do not
  decrease, the reveal counts computed by the ticks do not decrease either.
\<close>

theorem revealCount_nondecreasing:
  "sorted nows \<Longrightarrow> sorted (map (revealCount s) nows)"
  unfolding sorted_map
  by (erule sorted_wrt_mono_rel [rotated]) (simp add: revealCount_mono)

theorem revealCount_nondecreasing_witness:
  "sorted [0, 250, 500, 1000, 1200 :: real]
   \<and> map (revealCount \<lparr>el = 0, currentText = home, nextText = proNas, start = 0\<rparr>)
         [0, 250, 500, 1000, 1200] = [0, 1, 3, 7, 7]
   \<and> sorted (map (revealCount \<lparr>el = 0, currentText = home, nextText = proNas, start = 0\<rparr>)
         [0, 250, 500, 1000, 1200])"
  using revealCount_nondecreasing [of "[0, 250, 500, 1000, 1200]"
      "\<lparr>el = 0, currentText = home, nextText = proNas, start = 0\<rparr>"]
  by (simp add: session_eval proNas_def)

section \<open>Blank positions\<close>

lemmas render_eval =
  stepWrite_def out_def outCell_def highlightIndex_def session_eval str_def escapeHtml_def
  replaceAll_def trim_def isWhiteSpace_def spanOpen_def spanClose_def stripTrailingNbsp_def
  upt_conv_Cons

lemma escapeHtml_nbsp: "escapeHtml [0xA0] = [0xA0]"
  by (simp add: escapeHtml_unit escapeChar_def)

lemma trim_Nil: "trim [] = []"
  by (simp add: trim_def)

lemma trim_space: "trim [0x20] = []"
  by (simp add: trim_def isWhiteSpace_def)

text \<open>
  C5, as the claim states it, fails: from "Home" to the seven letters of \<open>proNas\<close>, at
  500 ms the reveal count is 3 and position 4 is a padding placeholder, the empty
  string, which the tick renders as the empty string and not as U+00A0; the markup
  written is the three revealed letters and the highlighted "e", and nothing for
  positions 4 to 6.
\<close>

theorem padding_rendered_empty_counterexample:
  "revealCount homeToProNas 500 = 3
   \<and> fromPadded homeToProNas ! 4 = []
   \<and> out homeToProNas 500 ! 4 = []
   \<and> out homeToProNas 500 ! 4 \<noteq> [0xA0]
   \<and> stepWrite homeToProNas 500 =
        SetInnerHTML ([0x41F, 0x440, 0x43E] @ spanOpen @ str ''e'' @ spanClose)"
  by (simp add: homeToProNas_def home_def proNas_def render_eval)

text \<open>
  C5, amended. At an unrevealed position, a source character that is the space U+0020
  is pushed as U+00A0, and a padding placeholder (a position beyond the end of the source
  text) is the empty string and is pushed as the empty string. In the scenario from
  "Home" to \<open>proNas\<close> at 500 ms the reveal count is 3, the first three entries are the
  first three letters of \<open>proNas\<close>, entry 3 is the "e" of "Home" in the highlight span, and
  entries 4 to 6 are empty.
\<close>

theorem unrevealed_blank_rendering:
  "i < targetLen s \<Longrightarrow> revealCount s now \<le> int i \<Longrightarrow>
     (fromPadded s ! i = [0x20] \<longrightarrow> out s now ! i = [0xA0])
   \<and> (length (fromChars s) \<le> i \<longrightarrow> fromPadded s ! i = [] \<and> out s now ! i = [])
   \<and> revealCount homeToProNas 500 = 3
   \<and> out homeToProNas 500 =
        [[0x41F], [0x440], [0x43E], spanOpen @ str ''e'' @ spanClose, [], [], []]"
proof (intro conjI)
  assume h: "i < targetLen s" "revealCount s now \<le> int i"
  show "fromPadded s ! i = [0x20] \<longrightarrow> out s now ! i = [0xA0]"
    using h by (simp add: nth_out outCell_def Let_def escapeHtml_nbsp trim_space)
  show "length (fromChars s) \<le> i \<longrightarrow> fromPadded s ! i = [] \<and> out s now ! i = []"
    using h by (simp add: nth_out nth_fromPadded outCell_def Let_def trim_Nil escapeHtml_Nil)
  show "revealCount homeToProNas 500 = 3"
    by (simp add: homeToProNas_def proNas_def session_eval)
  show "out homeToProNas 500 =
        [[0x41F], [0x440], [0x43E], spanOpen @ str ''e'' @ spanClose, [], [], []]"
    by (simp add: homeToProNas_def home_def proNas_def render_eval)
qed

theorem unrevealed_blank_rendering_witness:
  "(4::nat) < targetLen homeToProNas \<and> revealCount homeToProNas 500 \<le> int 4
   \<and> length (fromChars homeToProNas) \<le> 4 \<and> out homeToProNas 500 ! 4 = []
   \<and> (3::nat) < targetLen proNasToHome \<and> revealCount proNasToHome 500 \<le> int 3
   \<and> fromPadded proNasToHome ! 3 = [0x20]
   \<and> out proNasToHome 500 ! 3 = [0xA0]"
  using unrevealed_blank_rendering [of 4 homeToProNas 500]
    unrevealed_blank_rendering [of 3 proNasToHome 500]
  by (simp add: homeToProNas_def proNasToHome_def home_def proNas_def session_eval str_def)

section \<open>Characters\<close>

lemma concat_arrayFrom: "concat (arrayFrom s) = s"
  by (induction s rule: arrayFrom.induct) simp_all

lemma arrayFrom_elements:
  "x \<in> set (arrayFrom s) \<Longrightarrow>
   (\<exists>c. x = [c]) \<or> (\<exists>c d. x = [c, d] \<and> isLeadSurrogate c \<and> isTrailSurrogate d)"
  by (induction s rule: arrayFrom.induct) (auto split: if_splits)

lemma lead_not_trail: "\<not> (isLeadSurrogate c \<and> isTrailSurrogate c)"
proof
  assume "isLeadSurrogate c \<and> isTrailSurrogate c"
  then have "c \<le> 0xDBFF" and "0xDC00 \<le> c"
    by (simp_all add: isLeadSurrogate_def isTrailSurrogate_def)
  then have "(0xDC00 :: 16 word) \<le> 0xDBFF"
    by (rule order_trans [rotated])
  then show False by simp
qed

lemma arrayFrom_hd: "arrayFrom (c # cs) \<noteq> [] \<and> hd (hd (arrayFrom (c # cs))) = c"
  by (cases cs) simp_all

lemma arrayFrom_no_split:
  "Suc i < length (arrayFrom s) \<Longrightarrow>
   \<not> (isLeadSurrogate (last (arrayFrom s ! i)) \<and> isTrailSurrogate (hd (arrayFrom s ! Suc i)))"
proof (induction s arbitrary: i rule: arrayFrom.induct)
  case 1
  then show ?case by simp
next
  case (2 c)
  then show ?case by simp
next
  case (3 c d cs)
  show ?case
  proof (cases "isLeadSurrogate c \<and> isTrailSurrogate d")
    case True
    show ?thesis
    proof (cases i)
      case 0
      then show ?thesis using True lead_not_trail [of d] by auto
    next
      case (Suc j)
      with "3.prems" True have "Suc j < length (arrayFrom cs)"
        by simp
      from "3.IH"(1) [OF True this] show ?thesis
        using True by (auto simp: Suc)
    qed
  next
    case False
    show ?thesis
    proof (cases i)
      case 0
      then show ?thesis
        using False arrayFrom_hd [of d cs] by (auto simp: hd_conv_nth)
    next
      case (Suc j)
      with "3.prems" False have "Suc j < length (arrayFrom (d # cs))"
        by simp
      from "3.IH"(2) [OF False this] show ?thesis
        using False by (auto simp: Suc)
    qed
  qed
qed

text \<open>
  C6, as the claim states it, fails: \<open>Array.from\<close> groups code units into code points
  and nothing larger. The letter e followed by the combining acute accent U+0301 is one
  combining character sequence and two elements; half way through the animation from the
  empty text to that sequence the reveal count is 1 and the markup is the bare letter e,
  the sequence split.
\<close>

theorem combining_sequence_split_counterexample:
  "arrayFrom [0x65, 0x301] = [[0x65], [0x301]]
   \<and> revealCount toCombining 500 = 1
   \<and> stepWrite toCombining 500 = SetInnerHTML [0x65]"
  by (simp add: toCombining_def render_eval)

text \<open>
  C6, amended. The two strings are treated as sequences of Unicode code points, not of
  UTF-16 code units: the elements of \<open>Array.from\<close> concatenate to the string, every element
  is one code unit or a lead surrogate with its trail surrogate, no surrogate pair of the
  string lies across two elements, and a revealed position of a tick shows one whole
  element of the target. (A combining character sequence is several code points and can
  be split.)
\<close>

theorem arrayFrom_code_points:
  "concat (arrayFrom t) = t
   \<and> (\<forall>x\<in>set (arrayFrom t).
         (\<exists>c. x = [c]) \<or> (\<exists>c d. x = [c, d] \<and> isLeadSurrogate c \<and> isTrailSurrogate d))
   \<and> (\<forall>i. Suc i < length (arrayFrom t) \<longrightarrow>
         \<not> (isLeadSurrogate (last (arrayFrom t ! i))
            \<and> isTrailSurrogate (hd (arrayFrom t ! Suc i))))
   \<and> (\<forall>i<targetLen s. int i < revealCount s now \<longrightarrow>
         out s now ! i = escapeHtml (arrayFrom (nextText s) ! i))"
  by (auto simp: concat_arrayFrom arrayFrom_no_split nth_out outCell_def toPadded_def
      toChars_def dest: arrayFrom_elements)

theorem arrayFrom_code_points_witness:
  "arrayFrom [0xD83D, 0xDE00, 0x65, 0x301] = [[0xD83D, 0xDE00], [0x65], [0x301]]
   \<and> [0xD83D, 0xDE00] \<in> set (arrayFrom [0xD83D, 0xDE00, 0x65, 0x301])
   \<and> isLeadSurrogate 0xD83D \<and> isTrailSurrogate 0xDE00
   \<and> concat (arrayFrom [0xD83D, 0xDE00, 0x65, 0x301]) = [0xD83D, 0xDE00, 0x65, 0x301]
   \<and> (0::nat) < targetLen toCombining \<and> int 0 < revealCount toCombining 500
   \<and> out toCombining 500 ! 0 = [0x65]"
  using arrayFrom_code_points [of "[0xD83D, 0xDE00, 0x65, 0x301]" toCombining 500]
  by (simp add: toCombining_def render_eval)

section \<open>The first and the last tick\<close>

lemma textContent_setTextContent: "textContent (setTextContent t) = t"
  by (simp add: textContent_def setTextContent_def)

lemma progress_at_start: "progress s (start s) = 0"
  by (simp add: progress_def I18N_TEXT_SWAP_MS_def round64_zero)

lemma outCell_at_start:
  "i < targetLen s \<Longrightarrow>
   outCell s (start s) i =
     (let c = fromPadded s ! i; shown = (if c = [0x20] then [0xA0] else c)
      in if i = 0 \<and> trim c \<noteq> [] then spanOpen @ escapeHtml shown @ spanClose
         else escapeHtml shown)"
  by (simp add: outCell_def highlightIndex_def revealCount_def progress_at_start Let_def
      round64_zero)

text \<open>
  C2, as the claim states it, fails in its second half: at fraction 0 of the session
  from "My portfolio" to a word of three letters, the source cut to three positions is
  "My " and the tick writes the highlighted "M" and "y": the third position, a space shown
  as U+00A0, is a trailing U+00A0 and is stripped, so the output has two positions and
  carries a span.
\<close>

theorem fraction_zero_output_counterexample:
  "progress portfolioToMoje 0 = 0
   \<and> concat (fromPadded portfolioToMoje) = str ''My ''
   \<and> stepWrite portfolioToMoje 0 = SetInnerHTML (spanOpen @ str ''M'' @ spanClose @ str ''y'')
   \<and> stepWrite portfolioToMoje 0 \<noteq> SetInnerHTML (str ''My '')
   \<and> stepWrite portfolioToMoje 0 \<noteq> SetTextContent (str ''My '')"
  by (simp add: portfolioToMoje_def render_eval)

text \<open>
  C2, amended. A tick whose fraction has reached 1 sets the element's text to the
  target string exactly (the element then reads back as the target) and schedules nothing
  more. The tick at fraction 0 writes markup: position by position of the source padded or
  cut to the target's length, the escaped character with a space as U+00A0 and a
  placeholder as nothing, position 0 inside the highlight span when it is not
  whitespace, and the trailing run of U+00A0 of the whole stripped. The strip belongs to
  the writes before the end, not to the last one.
\<close>

theorem session_endpoints:
  "(1 \<le> progress s now \<longrightarrow>
      stepWrite s now = SetTextContent (nextText s)
      \<and> textContent (dom (step parseHtml s now w) (el s)) = nextText s
      \<and> frameCallbacks (step parseHtml s now w) = frameCallbacks w)
   \<and> progress s (start s) = 0
   \<and> stepWrite s (start s) =
        SetInnerHTML (stripTrailingNbsp (concat (map
          (\<lambda>i. let c = fromPadded s ! i; shown = (if c = [0x20] then [0xA0] else c)
               in if i = 0 \<and> trim c \<noteq> [] then spanOpen @ escapeHtml shown @ spanClose
                  else escapeHtml shown)
          [0..<targetLen s])))"
proof (intro conjI impI)
  assume p: "1 \<le> progress s now"
  show "stepWrite s now = SetTextContent (nextText s)"
    using p by (simp add: stepWrite_def)
  show "textContent (dom (step parseHtml s now w) (el s)) = nextText s"
    using p by (simp add: step_def stepWrite_def Let_def textContent_setTextContent)
  show "frameCallbacks (step parseHtml s now w) = frameCallbacks w"
    using p by (simp add: step_def Let_def)
next
  show "progress s (start s) = 0"
    by (rule progress_at_start)
  have "out s (start s) = map
          (\<lambda>i. let c = fromPadded s ! i; shown = (if c = [0x20] then [0xA0] else c)
               in if i = 0 \<and> trim c \<noteq> [] then spanOpen @ escapeHtml shown @ spanClose
                  else escapeHtml shown)
          [0..<targetLen s]"
    unfolding out_def by (rule map_cong) (simp_all add: outCell_at_start)
  then show "stepWrite s (start s) =
        SetInnerHTML (stripTrailingNbsp (concat (map
          (\<lambda>i. let c = fromPadded s ! i; shown = (if c = [0x20] then [0xA0] else c)
               in if i = 0 \<and> trim c \<noteq> [] then spanOpen @ escapeHtml shown @ spanClose
                  else escapeHtml shown)
          [0..<targetLen s])))"
    by (simp add: stepWrite_def progress_at_start)
qed

theorem session_endpoints_witness:
  "1 \<le> progress portfolioToMoje 1000
   \<and> stepWrite portfolioToMoje 1000 = SetTextContent [0x41C, 0x43E, 0x454]
   \<and> textContent (dom (step (\<lambda>m. [TextNode m]) portfolioToMoje 1000
         (page (str ''My portfolio''))) 0) = [0x41C, 0x43E, 0x454]"
  using session_endpoints [of portfolioToMoje 1000 "\<lambda>m. [TextNode m]"
      "page (str ''My portfolio'')"]
  by (simp add: portfolioToMoje_def progress_def I18N_TEXT_SWAP_MS_def number_eval)

section \<open>Escaping in the tick\<close>

lemma escapeChar_no_special: "set (escapeChar c) \<inter> {0x3C, 0x3E, 0x22, 0x27} = {}"
  by (simp add: escapeChar_def str_def)

lemma escapeHtml_no_special: "set (escapeHtml x) \<inter> {0x3C, 0x3E, 0x22, 0x27} = {}"
  using escapeChar_no_special
  by (induction x) (simp_all add: escapeHtml_Nil escapeHtml_Cons Int_Un_distrib2)

lemma amp_in_escapeChar:
  "i < length (escapeChar c) \<Longrightarrow> escapeChar c ! i = 0x26 \<Longrightarrow>
   i = 0 \<and> escapeChar c \<in> set entities"
  by (auto simp: escapeChar_def str_def entities_def nth_Cons' split: if_splits)

lemma escapeHtml_amp_entity:
  "i < length (escapeHtml x) \<Longrightarrow> escapeHtml x ! i = 0x26 \<Longrightarrow>
   \<exists>ent\<in>set entities. take (length ent) (drop i (escapeHtml x)) = ent"
proof (induction x arbitrary: i)
  case Nil
  then show ?case by (simp add: escapeHtml_Nil)
next
  case (Cons c cs)
  show ?case
  proof (cases "i < length (escapeChar c)")
    case True
    with Cons.prems have "escapeChar c ! i = 0x26"
      by (simp add: escapeHtml_Cons nth_append)
    with True have "i = 0" "escapeChar c \<in> set entities"
      using amp_in_escapeChar by blast+
    then show ?thesis
      by (intro bexI [of _ "escapeChar c"]) (simp_all add: escapeHtml_Cons)
  next
    case False
    with Cons.prems have "i - length (escapeChar c) < length (escapeHtml cs)"
      and "escapeHtml cs ! (i - length (escapeChar c)) = 0x26"
      by (simp_all add: escapeHtml_Cons nth_append)
    from Cons.IH [OF this] False show ?thesis
      by (simp add: escapeHtml_Cons)
  qed
qed

lemma out_cell_form:
  "cell \<in> set (out s now) \<Longrightarrow>
   \<exists>x. cell = escapeHtml x \<or> cell = spanOpen @ escapeHtml x @ spanClose"
  by (auto simp: out_def outCell_def Let_def)

lemma stripTrailingNbsp_suffix: "\<exists>k. m = stripTrailingNbsp m @ replicate k 0xA0"
proof -
  have "takeWhile (\<lambda>c. c = 0xA0) ys =
        replicate (length (takeWhile (\<lambda>c. c = 0xA0) ys)) (0xA0 :: 16 word)" for ys
    by (induction ys) simp_all
  then have "rev (takeWhile (\<lambda>c. c = 0xA0) (rev m)) =
        replicate (length (takeWhile (\<lambda>c. c = 0xA0) (rev m))) (0xA0 :: 16 word)"
    by (metis rev_replicate)
  moreover have "m = rev (dropWhile (\<lambda>c. c = 0xA0) (rev m))
                     @ rev (takeWhile (\<lambda>c. c = 0xA0) (rev m))"
    by (metis rev_append rev_rev_ident takeWhile_dropWhile_id)
  ultimately show ?thesis
    unfolding stripTrailingNbsp_def by metis
qed

text \<open>
  C7. Every entry that a tick pushes is \<open>escapeHtml\<close> of a string, bare or between the
  two fixed halves of the highlight span, and the markup written is the join of the
  entries less a trailing run of U+00A0. \<open>escapeHtml\<close> replaces the ampersand first, so
  that it is one pass over the input; its output holds none of \<open><\<close>, \<open>>\<close>, the double
  quote and the single quote, and every ampersand in it begins one of the five entities.
  So nothing taken from either string can be read as markup.
\<close>

theorem tick_markup_escaped:
  "(\<forall>cell\<in>set (out s now).
      \<exists>x. cell = escapeHtml x \<or> cell = spanOpen @ escapeHtml x @ spanClose)
   \<and> (\<forall>m. stepWrite s now = SetInnerHTML m \<longrightarrow>
         (\<exists>k. concat (out s now) = m @ replicate k 0xA0))
   \<and> escapeHtml x = concat (map escapeChar x)
   \<and> set (escapeHtml x) \<inter> {0x3C, 0x3E, 0x22, 0x27} = {}
   \<and> (\<forall>i<length (escapeHtml x). escapeHtml x ! i = 0x26 \<longrightarrow>
        (\<exists>ent\<in>set entities. take (length ent) (drop i (escapeHtml x)) = ent))"
proof (intro conjI ballI allI impI)
  show "\<exists>x. cell = escapeHtml x \<or> cell = spanOpen @ escapeHtml x @ spanClose"
    if "cell \<in> set (out s now)" for cell
    using that by (rule out_cell_form)
  show "\<exists>k. concat (out s now) = m @ replicate k 0xA0"
    if "stepWrite s now = SetInnerHTML m" for m
    using that stripTrailingNbsp_suffix [of "concat (out s now)"]
    by (auto simp: stepWrite_def split: if_splits)
  show "escapeHtml x = concat (map escapeChar x)"
    by (rule escapeHtml_single_pass)
  show "set (escapeHtml x) \<inter> {0x3C, 0x3E, 0x22, 0x27} = {}"
    by (rule escapeHtml_no_special)
  show "\<exists>ent\<in>set entities. take (length ent) (drop i (escapeHtml x)) = ent"
    if "i < length (escapeHtml x)" "escapeHtml x ! i = 0x26" for i
    using that by (rule escapeHtml_amp_entity)
qed

theorem tick_markup_escaped_witness:
  "stepWrite markupToEscape 500 =
     SetInnerHTML (str ''x'' @ spanOpen @ str ''&lt;'' @ spanClose @ str ''b'')
   \<and> spanOpen @ escapeHtml (str ''<'') @ spanClose \<in> set (out markupToEscape 500)
   \<and> escapeHtml (str ''x&y'') = str ''x&amp;y''
   \<and> (1::nat) < length (escapeHtml (str ''x&y'')) \<and> escapeHtml (str ''x&y'') ! 1 = 0x26
   \<and> take 5 (drop 1 (escapeHtml (str ''x&y''))) = str ''&amp;''
   \<and> str ''&amp;'' \<in> set entities"
  using tick_markup_escaped [of markupToEscape 500 "str ''x&y''"]
  by (simp add: markupToEscape_def render_eval entities_def escapeChar_def)

section \<open>Sessions and the handle table\<close>

lemma cancelPrevious_simps:
  "dom (cancelPrevious e w) = dom w"
  "rafCounter (cancelPrevious e w) = rafCounter w"
  "textAnimationRafs (cancelPrevious e w) = textAnimationRafs w"
  by (simp_all add: cancelPrevious_def cancelAnimationFrame_simps split: option.splits)

lemma cancelPrevious_subset:
  "set (frameCallbacks (cancelPrevious e w)) \<subseteq> set (frameCallbacks w)"
  by (auto simp: cancelPrevious_def cancelAnimationFrame_simps split: option.splits)

lemma animateTextScramble_unfold:
  "animateTextScramble t (Some e) v w =
     (let w1 = cancelPrevious e w
      in if textContent (dom w e) = v then w1
         else if childElementCount (dom w e) > 0
           then w1\<lparr>dom := (dom w)(e := setTextContent v)\<rparr>
         else w1\<lparr>frameCallbacks := frameCallbacks w1 @
                   [(Suc (rafCounter w),
                     \<lparr>el = e, currentText = textContent (dom w e), nextText = v, start = t\<rparr>)],
                 rafCounter := Suc (rafCounter w),
                 textAnimationRafs := (textAnimationRafs w)(e \<mapsto> Suc (rafCounter w))\<rparr>)"
  by (simp add: animateTextScramble_def cancelPrevious_def Let_def requestAnimationFrame_def
      cancelAnimationFrame_simps split: option.splits)

lemma handlesTracked_cancelPrevious:
  "handlesTracked w \<Longrightarrow> handlesTracked (cancelPrevious e w)"
  by (auto simp: handlesTracked_def cancelPrevious_def cancelAnimationFrame_simps
      distinct_map_filter split: option.splits)

lemma sessionsOf_cancelPrevious:
  assumes "handlesTracked w"
  shows "sessionsOf (cancelPrevious e w) e = []"
proof -
  have "\<not> (el cb = e \<and> (h, cb) \<in> set (frameCallbacks (cancelPrevious e w)))" for h cb
    using assms
    by (auto simp: handlesTracked_def cancelPrevious_def cancelAnimationFrame_simps
        split: option.splits)
  then show ?thesis
    by (auto simp: sessionsOf_def filter_empty_conv)
qed

lemma handlesTracked_animate:
  assumes "handlesTracked w"
  shows "handlesTracked (animateTextScramble t elem v w)"
proof (cases elem)
  case None
  then show ?thesis using assms by (simp add: animateTextScramble_def)
next
  case (Some e)
  let ?w1 = "cancelPrevious e w"
  have inv1: "handlesTracked ?w1"
    using assms by (rule handlesTracked_cancelPrevious)
  have none: "\<And>h cb. (h, cb) \<in> set (frameCallbacks ?w1) \<Longrightarrow> el cb \<noteq> e"
    using sessionsOf_cancelPrevious [OF assms, of e]
    by (auto simp: sessionsOf_def filter_empty_conv)
  have a: "handlesTracked (?w1\<lparr>dom := d\<rparr>)" for d
    using inv1 by (simp add: handlesTracked_def)
  have b: "handlesTracked (?w1\<lparr>frameCallbacks := frameCallbacks ?w1 @ [(Suc (rafCounter w), cb)],
                 rafCounter := Suc (rafCounter w),
                 textAnimationRafs := (textAnimationRafs w)(e \<mapsto> Suc (rafCounter w))\<rparr>)"
    if "el cb = e" for cb
    using inv1 none that
    by (fastforce simp: handlesTracked_def cancelPrevious_simps)
  show ?thesis
    using inv1 a b by (simp add: Some animateTextScramble_unfold Let_def)
qed

lemma handlesTracked_dom: "handlesTracked (w\<lparr>dom := d\<rparr>) = handlesTracked w"
  by (simp add: handlesTracked_def)

lemma handlesTracked_schedule:
  assumes inv: "handlesTracked w"
    and none: "\<And>h cb. (h, cb) \<in> set (frameCallbacks w) \<Longrightarrow> el cb \<noteq> el s"
  shows "handlesTracked
           (w\<lparr>frameCallbacks := frameCallbacks w @ [(Suc (rafCounter w), s)],
              rafCounter := Suc (rafCounter w),
              textAnimationRafs := (textAnimationRafs w)(el s \<mapsto> Suc (rafCounter w))\<rparr>)"
proof -
  have bound: "\<And>h cb. (h, cb) \<in> set (frameCallbacks w) \<Longrightarrow>
      0 < h \<and> h \<le> rafCounter w \<and> textAnimationRafs w (el cb) = Some h"
    using inv by (auto simp: handlesTracked_def)
  have "Suc (rafCounter w) \<notin> fst ` set (frameCallbacks w)"
  proof
    assume "Suc (rafCounter w) \<in> fst ` set (frameCallbacks w)"
    then obtain cb where "(Suc (rafCounter w), cb) \<in> set (frameCallbacks w)"
      by auto
    from bound [OF this] show False by simp
  qed
  moreover have "distinct (map fst (frameCallbacks w))"
    using inv by (simp add: handlesTracked_def)
  ultimately have d: "distinct (map fst (frameCallbacks w @ [(Suc (rafCounter w), s)]))"
    by simp
  have "0 < h \<and> h \<le> Suc (rafCounter w)
        \<and> ((textAnimationRafs w)(el s \<mapsto> Suc (rafCounter w))) (el cb) = Some h"
    if "(h, cb) \<in> set (frameCallbacks w @ [(Suc (rafCounter w), s)])" for h cb
  proof (cases "(h, cb) \<in> set (frameCallbacks w)")
    case True
    from bound [OF True] none [OF True] show ?thesis by simp
  next
    case False
    with that have "h = Suc (rafCounter w)" "cb = s" by simp_all
    then show ?thesis by simp
  qed
  with d show ?thesis
    unfolding handlesTracked_def by (simp add: case_prod_beta del: set_append) (metis prod.collapse)
qed

lemma handlesTracked_forget:
  assumes inv: "handlesTracked w"
    and none: "\<And>h cb. (h, cb) \<in> set (frameCallbacks w) \<Longrightarrow> el cb \<noteq> e"
  shows "handlesTracked (w\<lparr>textAnimationRafs := (textAnimationRafs w)(e := None)\<rparr>)"
  using inv none unfolding handlesTracked_def by (simp add: case_prod_beta) (metis prod.collapse)

lemma step_unfold:
  "step parseHtml s now w =
     (let w1 = w\<lparr>dom := (dom w)(el s :=
                  (case stepWrite s now of
                     SetTextContent t \<Rightarrow> setTextContent t
                   | SetInnerHTML m \<Rightarrow> parseHtml m))\<rparr>
      in if progress s now < 1
         then w1\<lparr>frameCallbacks := frameCallbacks w1 @ [(Suc (rafCounter w1), s)],
                 rafCounter := Suc (rafCounter w1),
                 textAnimationRafs := (textAnimationRafs w1)(el s \<mapsto> Suc (rafCounter w1))\<rparr>
         else w1\<lparr>textAnimationRafs := (textAnimationRafs w1)(el s := None)\<rparr>)"
  by (simp add: step_def Let_def requestAnimationFrame_def)

lemma handlesTracked_step:
  assumes "handlesTracked w" "\<And>h cb. (h, cb) \<in> set (frameCallbacks w) \<Longrightarrow> el cb \<noteq> el s"
  shows "handlesTracked (step parseHtml s now w)"
proof -
  let ?w1 = "w\<lparr>dom := (dom w)(el s :=
                  (case stepWrite s now of
                     SetTextContent t \<Rightarrow> setTextContent t
                   | SetInnerHTML m \<Rightarrow> parseHtml m))\<rparr>"
  have inv1: "handlesTracked ?w1"
    using assms(1) by (simp add: handlesTracked_dom)
  have none1: "\<And>h cb. (h, cb) \<in> set (frameCallbacks ?w1) \<Longrightarrow> el cb \<noteq> el s"
    using assms(2) by simp
  show ?thesis
    unfolding step_unfold Let_def
    using handlesTracked_schedule [OF inv1 none1] handlesTracked_forget [OF inv1 none1]
    by (simp del: fun_upd_apply)
qed

lemma handlesTracked_runFrameCallback:
  assumes "handlesTracked w"
  shows "handlesTracked (runFrameCallback parseHtml h now w)"
proof (cases "map_of (frameCallbacks w) h")
  case None
  then show ?thesis using assms by (simp add: runFrameCallback_def)
next
  case (Some cb)
  let ?w1 = "w\<lparr>frameCallbacks := filter (\<lambda>(i, c). i \<noteq> h) (frameCallbacks w)\<rparr>"
  have mem: "(h, cb) \<in> set (frameCallbacks w)"
    using Some by (rule map_of_SomeD)
  have bound: "\<And>i c. (i, c) \<in> set (frameCallbacks w) \<Longrightarrow>
      0 < i \<and> i \<le> rafCounter w \<and> textAnimationRafs w (el c) = Some i"
    using assms by (auto simp: handlesTracked_def)
  have inv1: "handlesTracked ?w1"
    using assms by (auto simp: handlesTracked_def distinct_map_filter)
  have "el c \<noteq> el cb" if "(i, c) \<in> set (frameCallbacks ?w1)" for i c
  proof
    assume same: "el c = el cb"
    from that have in_w: "(i, c) \<in> set (frameCallbacks w)" and ne: "i \<noteq> h"
      by simp_all
    from bound [OF in_w] bound [OF mem] same have "i = h" by simp
    with ne show False by simp
  qed
  with inv1 have "handlesTracked (step parseHtml cb now ?w1)"
    by (rule handlesTracked_step)
  then show ?thesis
    by (simp add: runFrameCallback_def Some)
qed

lemma handlesTracked_applyEvent:
  "handlesTracked w \<Longrightarrow> handlesTracked (applyEvent parseHtml ev w)"
proof (cases ev)
  case (Translate a t e v)
  assume "handlesTracked w"
  then show ?thesis
    using handlesTracked_animate [of w t "Some e" v]
    by (simp add: Translate applyTranslation_def handlesTracked_def)
next
  case (Animate t elem v)
  assume "handlesTracked w"
  then show ?thesis
    by (simp add: Animate handlesTracked_animate)
next
  case (Frame h now)
  assume "handlesTracked w"
  then show ?thesis
    by (simp add: Frame handlesTracked_runFrameCallback)
qed

lemma handlesTracked_run:
  "handlesTracked w \<Longrightarrow> handlesTracked (run parseHtml evs w)"
  unfolding run_def
  by (induction evs arbitrary: w) (simp_all add: handlesTracked_applyEvent)

lemma handlesTracked_idle: "frameCallbacks w = [] \<Longrightarrow> handlesTracked w"
  by (simp add: handlesTracked_def)

lemma at_most_one_session:
  assumes "handlesTracked w"
  shows "length (sessionsOf w e) \<le> 1"
proof -
  have d: "distinct (map fst (sessionsOf w e))"
    using assms by (simp add: handlesTracked_def sessionsOf_def distinct_map_filter)
  have "\<And>x. x \<in> set (sessionsOf w e) \<Longrightarrow> textAnimationRafs w e = Some (fst x)"
    using assms by (auto simp: handlesTracked_def sessionsOf_def)
  then have "set (map fst (sessionsOf w e)) \<subseteq> {the (textAnimationRafs w e)}"
    by auto
  then have "card (set (map fst (sessionsOf w e))) \<le> card {the (textAnimationRafs w e)}"
    by (intro card_mono) simp_all
  then show ?thesis
    using distinct_card [OF d] by simp
qed

lemma sessionsOf_animate:
  assumes "handlesTracked w"
  shows "sessionsOf (animateTextScramble t (Some e) v w) e =
           (if textContent (dom w e) = v \<or> childElementCount (dom w e) > 0 then []
            else [(Suc (rafCounter w),
                   \<lparr>el = e, currentText = textContent (dom w e), nextText = v, start = t\<rparr>)])"
proof -
  have "sessionsOf (cancelPrevious e w) e = []"
    using assms by (rule sessionsOf_cancelPrevious)
  then have "filter (\<lambda>(h, cb). el cb = e) (frameCallbacks (cancelPrevious e w)) = []"
    by (simp add: sessionsOf_def)
  then show ?thesis
    by (simp add: animateTextScramble_unfold Let_def sessionsOf_def)
qed

lemma animate_plain_simps:
  assumes "childElementCount (dom w e) = 0"
  shows "dom (animateTextScramble t (Some e) v w) = dom w"
    and "rafCounter (animateTextScramble t (Some e) v w) =
           (if textContent (dom w e) = v then rafCounter w else Suc (rafCounter w))"
  using assms by (simp_all add: animateTextScramble_unfold Let_def cancelPrevious_simps)







text \<open>
  C3, as the claim states it, fails in its last part: the element shows "ab", a session
  to "cd" is started and, before any tick, a call with "ef" follows. One callback is
  pending, of a session to "ef" whose source is "ab", the text still displayed; its tick
  at 16 ms writes the highlighted "a" and "b", characters of the first text.
\<close>

theorem superseded_session_source_counterexample:
  "frameCallbacks
     (animateTextScramble 0 (Some 0) (str ''ef'')
       (animateTextScramble 0 (Some 0) (str ''cd'') (page (str ''ab''))))
     = [(2, \<lparr>el = 0, currentText = str ''ab'', nextText = str ''ef'', start = 0\<rparr>)]
   \<and> stepWrite \<lparr>el = 0, currentText = str ''ab'', nextText = str ''ef'', start = 0\<rparr> 16
     = SetInnerHTML (spanOpen @ str ''a'' @ spanClose @ str ''b'')"
  by (simp add: animateTextScramble_def page_def textContent_def childElementCount_def
      setTextContent_def requestAnimationFrame_def cancelAnimationFrame_def Let_def
      render_eval)

text \<open>
  C3, amended. In every state reached from a state without pending callbacks by calls
  of the animator, plain translations and frame callbacks in any order, at most one
  pending callback writes to a given element. A call of the animator for an element
  leaves no earlier callback of that element pending: what is pending for it afterwards
  is the new session alone, if one was started. In particular, when the element shows
  plain text \<open>A\<close> and a session to \<open>B\<close> is started and then, before any tick, the
  animator is called with \<open>C\<close>: no session is pending if \<open>C = A\<close>, otherwise exactly one,
  to \<open>C\<close>, whose source is the text \<open>A\<close> still displayed, so that no character of \<open>B\<close> is
  ever written.
\<close>

theorem one_session_per_element:
  assumes idle: "frameCallbacks w0 = []" and w: "w = run parseHtml evs w0"
  shows
    "length (sessionsOf w e) \<le> 1
   \<and> (\<forall>h cb. (h, cb) \<in> set (sessionsOf (animateTextScramble t (Some e) C w) e) \<longrightarrow>
         h = Suc (rafCounter w) \<and> nextText cb = C \<and> currentText cb = textContent (dom w e))
   \<and> (textContent (dom w e) = A \<and> childElementCount (dom w e) = 0 \<and> A \<noteq> B \<longrightarrow>
         sessionsOf (animateTextScramble t2 (Some e) C (animateTextScramble t1 (Some e) B w)) e =
           (if C = A then []
            else [(Suc (Suc (rafCounter w)),
                   \<lparr>el = e, currentText = A, nextText = C, start = t2\<rparr>)]))"
proof -
  have inv: "handlesTracked w"
    unfolding w using idle by (intro handlesTracked_run handlesTracked_idle)
  have one: "length (sessionsOf w e) \<le> 1"
    using inv by (rule at_most_one_session)
  have new: "h = Suc (rafCounter w) \<and> nextText cb = C \<and> currentText cb = textContent (dom w e)"
    if "(h, cb) \<in> set (sessionsOf (animateTextScramble t (Some e) C w) e)" for h cb
    using that by (auto simp: sessionsOf_animate [OF inv] split: if_splits)
  have twice: "sessionsOf (animateTextScramble t2 (Some e) C (animateTextScramble t1 (Some e) B w)) e =
           (if C = A then []
            else [(Suc (Suc (rafCounter w)),
                   \<lparr>el = e, currentText = A, nextText = C, start = t2\<rparr>)])"
    if h: "textContent (dom w e) = A \<and> childElementCount (dom w e) = 0 \<and> A \<noteq> B"
  proof -
    let ?w1 = "animateTextScramble t1 (Some e) B w"
    have inv1: "handlesTracked ?w1"
      using inv by (rule handlesTracked_animate)
    have "dom ?w1 = dom w" and "rafCounter ?w1 = Suc (rafCounter w)"
      using h by (simp_all add: animate_plain_simps)
    then show ?thesis
      using h by (auto simp: sessionsOf_animate [OF inv1])
  qed
  from one new twice show ?thesis
    by blast
qed

theorem one_session_per_element_witness:
  "frameCallbacks (page (str ''ab'')) = []
   \<and> length (sessionsOf (run (\<lambda>m. [TextNode m])
         [Animate 0 (Some 0) (str ''cd''), Frame 1 16] (page (str ''ab''))) 0) \<le> 1
   \<and> sessionsOf (animateTextScramble 0 (Some 0) (str ''ef'')
       (animateTextScramble 0 (Some 0) (str ''cd'') (page (str ''ab'')))) 0
     = [(2, \<lparr>el = 0, currentText = str ''ab'', nextText = str ''ef'', start = 0\<rparr>)]"
  using one_session_per_element [of "page (str ''ab'')"
      "run (\<lambda>m. [TextNode m]) [Animate 0 (Some 0) (str ''cd''), Frame 1 16] (page (str ''ab''))"
      "\<lambda>m. [TextNode m]" "[Animate 0 (Some 0) (str ''cd''), Frame 1 16]" 0]
    one_session_per_element [of "page (str ''ab'')" "page (str ''ab'')" "\<lambda>m. [TextNode m]"
      "[]" 0 0 "str ''ef''" "str ''ab''" "str ''cd''" 0 0]
  by (simp add: run_def page_def textContent_def childElementCount_def setTextContent_def
      str_def)

section \<open>Calls that do not animate\<close>

text \<open>
  C8. A call without an element changes nothing. A call whose string is the text the
  element already shows leaves the content of every element, the handle table and the
  handle counter as they were and adds no callback (it cancels the callback the table
  holds for the element, if that is pending); when no session is pending for the
  element, the state after the call is the state before it.
\<close>

theorem animateTextScramble_noop:
  "animateTextScramble t None v w = w
   \<and> (textContent (dom w e) = v \<longrightarrow>
        dom (animateTextScramble t (Some e) v w) = dom w
      \<and> rafCounter (animateTextScramble t (Some e) v w) = rafCounter w
      \<and> textAnimationRafs (animateTextScramble t (Some e) v w) = textAnimationRafs w
      \<and> set (frameCallbacks (animateTextScramble t (Some e) v w)) \<subseteq> set (frameCallbacks w)
      \<and> (\<not> sessionPending w e \<longrightarrow> animateTextScramble t (Some e) v w = w))"
proof (intro conjI impI)
  show "animateTextScramble t None v w = w"
    by (simp add: animateTextScramble_def)
next
  assume same: "textContent (dom w e) = v"
  then have eq: "animateTextScramble t (Some e) v w = cancelPrevious e w"
    by (simp add: animateTextScramble_unfold)
  show "dom (animateTextScramble t (Some e) v w) = dom w"
    and "rafCounter (animateTextScramble t (Some e) v w) = rafCounter w"
    and "textAnimationRafs (animateTextScramble t (Some e) v w) = textAnimationRafs w"
    by (simp_all add: eq cancelPrevious_simps)
  show "set (frameCallbacks (animateTextScramble t (Some e) v w)) \<subseteq> set (frameCallbacks w)"
    unfolding eq by (rule cancelPrevious_subset)
  show "animateTextScramble t (Some e) v w = w" if "\<not> sessionPending w e"
  proof -
    have "filter (\<lambda>(i, cb). i \<noteq> h) (frameCallbacks w) = frameCallbacks w"
      if "textAnimationRafs w e = Some h" for h
      using that \<open>\<not> sessionPending w e\<close>
      by (force simp: sessionPending_def filter_id_conv)
    then show ?thesis
      by (simp add: eq cancelPrevious_def cancelAnimationFrame_def split: option.splits)
  qed
qed

theorem animateTextScramble_noop_witness:
  "textContent (dom (page (str ''Hi'')) 0) = str ''Hi''
   \<and> \<not> sessionPending (page (str ''Hi'')) 0
   \<and> animateTextScramble 0 (Some 0) (str ''Hi'') (page (str ''Hi'')) = page (str ''Hi'')"
  using animateTextScramble_noop [of 0 "str ''Hi''" "page (str ''Hi'')" 0]
  by (simp add: page_def textContent_def setTextContent_def str_def sessionPending_def)

text \<open>
  C4, as the claim states it, fails for one kind of element with nested markup: when the
  text of the nested markup already is the new string, the comparison of the texts
  returns first and the element keeps its child element; its content is not replaced by
  the plain string.
\<close>

theorem nested_same_text_counterexample:
  "0 < childElementCount (dom nestedPage 0)
   \<and> dom (animateTextScramble 0 (Some 0) (str ''Hi'') nestedPage) 0
       = [ElementNode ''b'' [TextNode (str ''Hi'')]]
   \<and> dom (animateTextScramble 0 (Some 0) (str ''Hi'') nestedPage) 0
       \<noteq> setTextContent (str ''Hi'')"
  by (simp add: nestedPage_def animateTextScramble_def Let_def textContent_def
      childElementCount_def setTextContent_def str_def)

text \<open>
  C4, amended. With the reduced-motion preference set, the translation of an element
  sets its text to the new string at once and changes nothing else: no callback is
  scheduled. A call of the animator for an element with child elements whose text differs
  from the new string sets the element's text to the new string at once, hands out no
  handle and adds no callback. (With child elements and the same text, the call leaves
  the element as it is.)
\<close>

theorem disabled_animation_plain_replace:
  "(prefersReducedMotion \<longrightarrow>
      applyTranslation (shouldAnimate animate prefersReducedMotion) t e v w =
        w\<lparr>dom := (dom w)(e := setTextContent v)\<rparr>)
   \<and> (0 < childElementCount (dom w e) \<and> textContent (dom w e) \<noteq> v \<longrightarrow>
        dom (animateTextScramble t (Some e) v w) = (dom w)(e := setTextContent v)
      \<and> rafCounter (animateTextScramble t (Some e) v w) = rafCounter w
      \<and> textAnimationRafs (animateTextScramble t (Some e) v w) = textAnimationRafs w
      \<and> set (frameCallbacks (animateTextScramble t (Some e) v w)) \<subseteq> set (frameCallbacks w))
   \<and> (0 < childElementCount (dom w e) \<and> textContent (dom w e) = v \<longrightarrow>
        dom (animateTextScramble t (Some e) v w) = dom w)"
  using cancelPrevious_subset [of e w]
  by (simp add: applyTranslation_def shouldAnimate_def animateTextScramble_unfold Let_def
      cancelPrevious_simps)

theorem disabled_animation_plain_replace_witness:
  "applyTranslation (shouldAnimate True True) 0 0 (str ''Hi'') (page (str ''Yo'')) =
     (page (str ''Yo''))\<lparr>dom := (dom (page (str ''Yo'')))(0 := setTextContent (str ''Hi''))\<rparr>
   \<and> 0 < childElementCount (dom nestedPage 0) \<and> textContent (dom nestedPage 0) \<noteq> str ''Yo''
   \<and> dom (animateTextScramble 0 (Some 0) (str ''Yo'') nestedPage) 0 = [TextNode (str ''Yo'')]
   \<and> frameCallbacks (animateTextScramble 0 (Some 0) (str ''Yo'') nestedPage) = []"
  using disabled_animation_plain_replace [of True True 0 0 "str ''Hi''" "page (str ''Yo'')"]
    disabled_animation_plain_replace [of True True 0 0 "str ''Yo''" nestedPage]
  by (simp add: nestedPage_def textContent_def childElementCount_def setTextContent_def
      str_def)

end
